theory Spec2Isabelle
  imports Main "HOL-Library.AList"
begin

section \<open>JavaScript values\<close>

text \<open>
  The properties of \<open>SC.LinkView\<close> hold JavaScript values. The view documents strings,
  arrays of strings, booleans and \<open>null\<close>; a property can still be set to any value, so
  the model keeps \<open>undefined\<close> and numbers too. Numbers are whole numbers here: no claim
  depends on fractions or on NaN.
\<close>

datatype jsval =
    JUndefined
  | JNull
  | JBool bool
  | JNum int
  | JStr string
  | JArr "string list"

text \<open>JavaScript's ToBoolean, as used by \<open>&&\<close>, \<open>||\<close>, \<open>?:\<close> and \<open>if\<close>.\<close>

fun truthy :: "jsval \<Rightarrow> bool" where
  "truthy JUndefined = False"
| "truthy JNull = False"
| "truthy (JBool b) = b"
| "truthy (JNum n) = (n \<noteq> 0)"
| "truthy (JStr s) = (s \<noteq> [])"
| "truthy (JArr xs) = True"

fun is_string :: "jsval \<Rightarrow> bool" where
  "is_string (JStr s) = True"
| "is_string v = False"

section \<open>The computed properties of the link view\<close>

text \<open>
  \<^verbatim>\<open>
  displayBody: function () {
    var ret = this.get('body');
    return (ret && this.get('localize')) ? SC.String.loc(ret) : (ret || '');
  }.property('body', 'localize').cacheable()
  \<close>
  \<open>SC.String.loc\<close> is not part of the sources at hand; it is the parameter \<open>loc\<close>.
  The two reads \<open>this.get('body')\<close> and \<open>this.get('localize')\<close> are the arguments.
\<close>

definition displayBody :: "(jsval \<Rightarrow> jsval) \<Rightarrow> jsval \<Rightarrow> jsval \<Rightarrow> jsval" where
  "displayBody loc body localize =
     (let ret = body in
      if truthy ret \<and> truthy localize then loc ret
      else (if truthy ret then ret else JStr []))"

text \<open>
  \<^verbatim>\<open>
  hreflang: function () {
    var language = this.get('language'), ret;
    ret = language || SC.Locale.currentLocale.language;
    return ret;
  }.property('language', 'localize').cacheable()
  \<close>
  \<open>SC.Locale.currentLocale.language\<close> is not part of the sources at hand; it is the
  parameter \<open>currentLocale_language\<close>. The view documents \<open>hreflang\<close> as a String whose
  default is that constant, so the parameter is a string.
\<close>

definition hreflang :: "string \<Rightarrow> jsval \<Rightarrow> jsval" where
  "hreflang currentLocale_language language =
     (let ret = (if truthy language then language else JStr currentLocale_language)
      in ret)"

section \<open>The host: render context, live node, escaping\<close>

datatype js_error = TypeError

text \<open>
  Modelled from the spec: the \<open>emit\<close> sink of the cold path (\<open>SC.RenderContext\<close>, not
  part of the sources at hand) accepts attribute key/value pairs and content and builds
  the markup of a node from them. The model records what it is given: the tag, the
  attribute values under their names, and the pushed content in order.
\<close>

record render_context =
  ctx_tagName :: string
  ctx_attrs :: "string \<rightharpoonup> jsval"
  ctx_strings :: "jsval list"

fun setAttr :: "(string \<times> jsval) list \<Rightarrow> render_context \<Rightarrow> render_context" where
  "setAttr [] context = context"
| "setAttr ((key, val) # rest) context =
     setAttr rest (context\<lparr>ctx_attrs := (ctx_attrs context)(key \<mapsto> val)\<rparr>)"

definition push :: "jsval \<Rightarrow> render_context \<Rightarrow> render_context" where
  "push str context = context\<lparr>ctx_strings := ctx_strings context @ [str]\<rparr>"

text \<open>
  Modelled from the spec: the primitive mutations of the warm path (\<open>jqEl.attr(name, value)\<close>
  and \<open>jqEl.html(value)\<close> of the host's node handle, not part of the sources at hand).
  The backing node holds its tag, its attribute values and its content; every mutation
  stores the value it is given and is appended to \<open>mutations\<close>, the record of the calls
  made on the node.
\<close>

datatype mutation = AttrCall string jsval | HtmlCall jsval

record node =
  tagName :: string
  attributes :: "string \<rightharpoonup> jsval"
  innerHTML :: "jsval list"
  mutations :: "mutation list"

definition attr :: "string \<Rightarrow> jsval \<Rightarrow> node \<Rightarrow> node" where
  "attr name val jqEl =
     jqEl\<lparr>attributes := (attributes jqEl)(name \<mapsto> val),
          mutations := mutations jqEl @ [AttrCall name val]\<rparr>"

definition html :: "jsval \<Rightarrow> node \<Rightarrow> node" where
  "html val jqEl =
     jqEl\<lparr>innerHTML := [val], mutations := mutations jqEl @ [HtmlCall val]\<rparr>"

text \<open>
  Modelled from the spec: the backing node that the host creates from a finished cold
  render (not part of the sources at hand) carries the tag, the attributes and the
  content that were emitted; no mutation has been made on it yet.
\<close>

definition createLayer :: "render_context \<Rightarrow> node" where
  "createLayer context =
     \<lparr>tagName = ctx_tagName context, attributes = ctx_attrs context,
      innerHTML = ctx_strings context, mutations = []\<rparr>"

text \<open>
  Modelled from the spec: the host's text-escaping function (\<open>SC.RenderContext.escapeHTML\<close>,
  not part of the sources at hand) gives the HTML-entity-escaped form of a text: the
  markup characters \<open>&\<close>, \<open><\<close> and \<open>>\<close> become \<open>&amp;\<close>, \<open>&lt;\<close> and \<open>&gt;\<close>. The spec
  speaks of text only; a value that is not a string is handed back as it is.
\<close>

fun escape_char :: "char \<Rightarrow> string" where
  "escape_char c =
     (if c = CHR ''&'' then ''&amp;''
      else if c = CHR ''<'' then ''&lt;''
      else if c = CHR ''>'' then ''&gt;''
      else [c])"

definition escape_text :: "string \<Rightarrow> string" where
  "escape_text s = concat (map escape_char s)"

fun RenderContext_escapeHTML :: "jsval \<Rightarrow> jsval" where
  "RenderContext_escapeHTML (JStr s) = JStr (escape_text s)"
| "RenderContext_escapeHTML v = v"

section \<open>The render and update methods of the link view\<close>

text \<open>
  Both methods start by reading the view: \<open>this.get('displayBody')\<close>,
  \<open>this.get('displayToolTip')\<close> and so on. The record holds the value of each read (the
  display snapshot the method works on).
\<close>

record link_view =
  get_displayBody :: jsval
  get_displayToolTip :: jsval
  get_fileName :: jsval
  get_escapeHTML :: jsval
  get_href :: jsval
  get_hreflang :: jsval
  get_ping :: jsval
  get_rel :: jsval
  get_target :: jsval
  get_type :: jsval

text \<open>\<open>Array.prototype.join\<close> on an array of strings.\<close>

fun join :: "string \<Rightarrow> string list \<Rightarrow> string" where
  "join sep [] = []"
| "join sep [x] = x"
| "join sep (x # y # ys) = x @ sep @ join sep (y # ys)"

text \<open>
  \<open>ping ? ping.join(' ') : null\<close>: a falsy value gives \<open>null\<close>, an array is joined, and
  any other truthy value has no \<open>join\<close> method, so the call raises a TypeError.
\<close>

fun join_or_null :: "jsval \<Rightarrow> js_error + jsval" where
  "join_or_null (JArr xs) = Inr (JStr (join '' '' xs))"
| "join_or_null v = (if truthy v then Inl TypeError else Inr JNull)"

text \<open>
  \<^verbatim>\<open>
  render: function (context) {
    var displayBody = this.get('displayBody'), ... type = this.get('type');
    if (displayToolTip && escapeHTML) {
      displayToolTip = SC.RenderContext.escapeHTML(displayToolTip);
    }
    context.setAttr({ 'download': fileName, 'href': href, 'hreflang': hreflang,
      'ping': ping ? ping.join(' ') : null, 'rel': rel ? rel.join(' ') : null,
      'target': target, 'title': displayToolTip, 'type': type });
    if (displayBody && escapeHTML) {
      displayBody = SC.RenderContext.escapeHTML(displayBody);
    }
    context.push(displayBody);
  }
  \<close>
  The escaping function of the host is the parameter \<open>esc\<close>. The object literal is
  evaluated before \<open>setAttr\<close> is called, so a TypeError of a \<open>join\<close> leaves the context as
  it was.
\<close>

definition render :: "(jsval \<Rightarrow> jsval) \<Rightarrow> link_view \<Rightarrow> render_context \<Rightarrow> js_error + render_context" where
  "render esc this context =
     (let displayBody = get_displayBody this;
          displayToolTip = get_displayToolTip this;
          fileName = get_fileName this;
          escapeHTML = get_escapeHTML this;
          href = get_href this;
          hreflang = get_hreflang this;
          ping = get_ping this;
          rel = get_rel this;
          target = get_target this;
          type = get_type this;
          displayToolTip =
            (if truthy displayToolTip \<and> truthy escapeHTML then esc displayToolTip
             else displayToolTip)
      in case join_or_null ping of
           Inl e \<Rightarrow> Inl e
         | Inr pingAttr \<Rightarrow>
             (case join_or_null rel of
                Inl e \<Rightarrow> Inl e
              | Inr relAttr \<Rightarrow>
                  (let context = setAttr
                         [(''download'', fileName), (''href'', href), (''hreflang'', hreflang),
                          (''ping'', pingAttr), (''rel'', relAttr), (''target'', target),
                          (''title'', displayToolTip), (''type'', type)] context;
                       displayBody =
                         (if truthy displayBody \<and> truthy escapeHTML then esc displayBody
                          else displayBody)
                   in Inr (push displayBody context))))"

text \<open>
  \<^verbatim>\<open>
  update: function (jqEl) {
    var displayBody = this.get('displayBody'), ... hreflang = this.get('hreflang');
    jqEl.attr('download', fileName);
    jqEl.attr('href', href);
    jqEl.attr('hreflang', hreflang);
    if (displayToolTip && escapeHTML) {
      displayToolTip = SC.RenderContext.escapeHTML(displayToolTip);
    }
    jqEl.attr('title', displayToolTip);
    if (displayBody && escapeHTML) {
      displayBody = SC.RenderContext.escapeHTML(displayBody);
    }
    jqEl.html(displayBody);
  }
  \<close>
\<close>

definition update :: "(jsval \<Rightarrow> jsval) \<Rightarrow> link_view \<Rightarrow> node \<Rightarrow> node" where
  "update esc this jqEl =
     (let displayBody = get_displayBody this;
          displayToolTip = get_displayToolTip this;
          fileName = get_fileName this;
          escapeHTML = get_escapeHTML this;
          href = get_href this;
          hreflang = get_hreflang this;
          jqEl = attr ''download'' fileName jqEl;
          jqEl = attr ''href'' href jqEl;
          jqEl = attr ''hreflang'' hreflang jqEl;
          displayToolTip =
            (if truthy displayToolTip \<and> truthy escapeHTML then esc displayToolTip
             else displayToolTip);
          jqEl = attr ''title'' displayToolTip jqEl;
          displayBody =
            (if truthy displayBody \<and> truthy escapeHTML then esc displayBody
             else displayBody)
      in html displayBody jqEl)"

section \<open>The computed property cache\<close>

text \<open>
  Modelled from the spec: \<open>.property(...).cacheable()\<close> and the \<open>get\<close> and \<open>set\<close> of the
  view belong to the property observing library, which is not part of the sources at
  hand. The spec describes the cache they form: a computed entry has its dependencies,
  its \<open>compute\<close> function, a cached value (or UNSET) and a \<open>valid\<close> flag. \<open>compute\<close> is
  evaluated against the current raw values of the dependencies, so it is given the raw
  properties restricted to them. \<open>computeCalls\<close> is the counting stub: it counts the
  invocations of \<open>compute\<close> functions.
\<close>

record computed_entry =
  dependencies :: "string list"
  compute :: "(string \<rightharpoonup> jsval) \<Rightarrow> jsval"
  cachedValue :: "jsval option"
  valid :: bool

record property_cache =
  properties :: "string \<rightharpoonup> jsval"
  entries :: "(string \<times> computed_entry) list"
  computeCalls :: nat

definition current_values :: "property_cache \<Rightarrow> computed_entry \<Rightarrow> (string \<rightharpoonup> jsval)" where
  "current_values c e = properties c |` set (dependencies e)"

text \<open>
  \<open>get(name)\<close>: if the entry is not valid (or was never computed), evaluate \<open>compute\<close>,
  store the result, mark the entry valid and return the result; otherwise return the
  cached value and leave the cache as it is. A name with no computed entry is a raw
  property, whose current value is returned.
\<close>

definition cache_get :: "property_cache \<Rightarrow> string \<Rightarrow> jsval option \<times> property_cache" where
  "cache_get c name =
     (case map_of (entries c) name of
        None \<Rightarrow> (properties c name, c)
      | Some e \<Rightarrow>
          (if valid e \<and> cachedValue e \<noteq> None then (cachedValue e, c)
           else
             (let v = compute e (current_values c e)
              in (Some v,
                  c\<lparr>entries := AList.update name (e\<lparr>cachedValue := Some v, valid := True\<rparr>) (entries c),
                    computeCalls := computeCalls c + 1\<rparr>))))"

text \<open>
  \<open>set(propertyName, value)\<close> writes the raw property and invalidates, at once, every
  entry that has \<open>propertyName\<close> among its dependencies, and every entry that depends on
  an invalidated entry, along all reachable edges. \<open>dependents\<close> is one step along the
  edges; as many rounds as there are entries reach every entry that can be reached.
\<close>

definition dependents :: "(string \<times> computed_entry) list \<Rightarrow> string list \<Rightarrow> string list" where
  "dependents es names =
     map fst (filter (\<lambda>(n, e). list_ex (\<lambda>d. d \<in> set names) (dependencies e)) es)"

fun propagate :: "nat \<Rightarrow> (string \<times> computed_entry) list \<Rightarrow> string list \<Rightarrow> string list" where
  "propagate 0 es names = names"
| "propagate (Suc k) es names = propagate k es (names @ dependents es names)"

definition invalidated :: "(string \<times> computed_entry) list \<Rightarrow> string \<Rightarrow> string list" where
  "invalidated es propertyName = propagate (length es) es [propertyName]"

definition invalidate :: "string list \<Rightarrow> string \<times> computed_entry \<Rightarrow> string \<times> computed_entry" where
  "invalidate names ne =
     (if fst ne \<in> set names then (fst ne, (snd ne)\<lparr>valid := False\<rparr>) else ne)"

definition cache_set :: "property_cache \<Rightarrow> string \<Rightarrow> jsval \<Rightarrow> property_cache" where
  "cache_set c propertyName v =
     c\<lparr>properties := (properties c)(propertyName \<mapsto> v),
       entries := map (invalidate (invalidated (entries c) propertyName)) (entries c)\<rparr>"

fun cache_sets :: "property_cache \<Rightarrow> (string \<times> jsval) list \<Rightarrow> property_cache" where
  "cache_sets c [] = c"
| "cache_sets c ((propertyName, v) # ws) = cache_sets (cache_set c propertyName v) ws"

text \<open>
  The invariant of the spec's data model: the cached value of a valid entry is
  \<open>compute\<close> applied to the current values of its dependencies.
\<close>

definition coherent :: "property_cache \<Rightarrow> bool" where
  "coherent c =
     (\<forall>(n, e) \<in> set (entries c).
        valid e \<longrightarrow> cachedValue e = Some (compute e (current_values c e)))"

text \<open>
  The two computed entries of the link view, with the dependencies the source declares
  for them: \<open>.property('body', 'localize')\<close> and \<open>.property('language', 'localize')\<close>.
  A property that was never written reads as \<open>undefined\<close>.
\<close>

definition raw :: "(string \<rightharpoonup> jsval) \<Rightarrow> string \<Rightarrow> jsval" where
  "raw vals name = (case vals name of None \<Rightarrow> JUndefined | Some v \<Rightarrow> v)"

definition displayBody_entry :: "(jsval \<Rightarrow> jsval) \<Rightarrow> computed_entry" where
  "displayBody_entry loc =
     \<lparr>dependencies = [''body'', ''localize''],
      compute = (\<lambda>vals. displayBody loc (raw vals ''body'') (raw vals ''localize'')),
      cachedValue = None, valid = False\<rparr>"

definition hreflang_entry :: "string \<Rightarrow> computed_entry" where
  "hreflang_entry currentLocale_language =
     \<lparr>dependencies = [''language'', ''localize''],
      compute = (\<lambda>vals. hreflang currentLocale_language (raw vals ''language'')),
      cachedValue = None, valid = False\<rparr>"

definition link_view_cache :: "(jsval \<Rightarrow> jsval) \<Rightarrow> string \<Rightarrow> property_cache" where
  "link_view_cache loc currentLocale_language =
     \<lparr>properties = [''body'' \<mapsto> JStr [], ''language'' \<mapsto> JNull],
      entries = [(''displayBody'', displayBody_entry loc),
                 (''hreflang'', hreflang_entry currentLocale_language)],
      computeCalls = 0\<rparr>"

text \<open>
  The edges of the dependency graph: the name of every entry with its dependencies. The
  entries that a write invalidates depend on these edges alone.
\<close>

definition dependency_edges :: "(string \<times> computed_entry) list \<Rightarrow> (string \<times> string list) list" where
  "dependency_edges es = map (\<lambda>ne. (fst ne, dependencies (snd ne))) es"

text \<open>
  An entry depends on a property when the property is among its declared dependencies,
  or when one of its declared dependencies is an entry that depends on the property.
\<close>

inductive depends_on :: "(string \<times> computed_entry) list \<Rightarrow> string \<Rightarrow> string \<Rightarrow> bool"
  for es :: "(string \<times> computed_entry) list" where
  direct: "(n, e) \<in> set es \<Longrightarrow> p \<in> set (dependencies e) \<Longrightarrow> depends_on es n p"
| through: "(n, e) \<in> set es \<Longrightarrow> d \<in> set (dependencies e) \<Longrightarrow> depends_on es d p \<Longrightarrow> depends_on es n p"

code_pred depends_on .

section \<open>An example view\<close>

text \<open>
  The link of the class documentation (the resume of an employee), with a tool tip that
  holds markup characters, and the empty context of an anchor.
\<close>

definition example_view :: link_view where
  "example_view =
     \<lparr>get_displayBody = JStr ''Current Resume'',
      get_displayToolTip = JStr ''Link to <current> resume'',
      get_fileName = JStr ''Resume - Tyler Keating.pdf'',
      get_escapeHTML = JBool True,
      get_href = JStr ''/users/22/cur-resume.pdf'',
      get_hreflang = JStr ''en'',
      get_ping = JNull,
      get_rel = JArr [''author'', ''sidebar''],
      get_target = JStr ''_blank'',
      get_type = JNull\<rparr>"

definition example_context :: render_context where
  "example_context = \<lparr>ctx_tagName = ''a'', ctx_attrs = Map.empty, ctx_strings = []\<rparr>"

section \<open>What update and render do to the host\<close>

lemma update_mutations:
  "mutations (update esc this jqEl) =
     mutations jqEl @
       [AttrCall ''download'' (get_fileName this),
        AttrCall ''href'' (get_href this),
        AttrCall ''hreflang'' (get_hreflang this),
        AttrCall ''title''
          (if truthy (get_displayToolTip this) \<and> truthy (get_escapeHTML this)
           then esc (get_displayToolTip this) else get_displayToolTip this),
        HtmlCall
          (if truthy (get_displayBody this) \<and> truthy (get_escapeHTML this)
           then esc (get_displayBody this) else get_displayBody this)]"
  by (simp add: update_def attr_def html_def Let_def)

lemma update_attributes:
  "attributes (update esc this jqEl) =
     (attributes jqEl)
       (''download'' \<mapsto> get_fileName this,
        ''href'' \<mapsto> get_href this,
        ''hreflang'' \<mapsto> get_hreflang this,
        ''title'' \<mapsto>
          (if truthy (get_displayToolTip this) \<and> truthy (get_escapeHTML this)
           then esc (get_displayToolTip this) else get_displayToolTip this))"
  by (simp add: update_def attr_def html_def Let_def)

lemma update_innerHTML:
  "innerHTML (update esc this jqEl) =
     [if truthy (get_displayBody this) \<and> truthy (get_escapeHTML this)
      then esc (get_displayBody this) else get_displayBody this]"
  by (simp add: update_def attr_def html_def Let_def)

lemma update_tagName: "tagName (update esc this jqEl) = tagName jqEl"
  by (simp add: update_def attr_def html_def Let_def)

lemma render_Inr:
  assumes "render esc this context = Inr context'"
  obtains pingAttr relAttr where
    "join_or_null (get_ping this) = Inr pingAttr"
    "join_or_null (get_rel this) = Inr relAttr"
    "context' =
       context\<lparr>ctx_attrs := (ctx_attrs context)
           (''download'' \<mapsto> get_fileName this,
            ''href'' \<mapsto> get_href this,
            ''hreflang'' \<mapsto> get_hreflang this,
            ''ping'' \<mapsto> pingAttr,
            ''rel'' \<mapsto> relAttr,
            ''target'' \<mapsto> get_target this,
            ''title'' \<mapsto>
              (if truthy (get_displayToolTip this) \<and> truthy (get_escapeHTML this)
               then esc (get_displayToolTip this) else get_displayToolTip this),
            ''type'' \<mapsto> get_type this),
         ctx_strings := ctx_strings context @
           [if truthy (get_displayBody this) \<and> truthy (get_escapeHTML this)
            then esc (get_displayBody this) else get_displayBody this]\<rparr>"
  using assms
  by (auto simp: render_def push_def Let_def split: sum.splits)


lemma render_succeeds:
  "join_or_null (get_ping this) = Inr pingAttr \<Longrightarrow> join_or_null (get_rel this) = Inr relAttr \<Longrightarrow>
   \<exists>context'. render esc this context = Inr context'"
  by (simp add: render_def Let_def)

lemma example_render:
  "render esc example_view example_context =
     Inr \<lparr>ctx_tagName = ''a'',
          ctx_attrs =
            [''download'' \<mapsto> JStr ''Resume - Tyler Keating.pdf'',
             ''href'' \<mapsto> JStr ''/users/22/cur-resume.pdf'',
             ''hreflang'' \<mapsto> JStr ''en'',
             ''ping'' \<mapsto> JNull,
             ''rel'' \<mapsto> JStr ''author sidebar'',
             ''target'' \<mapsto> JStr ''_blank'',
             ''title'' \<mapsto> esc (JStr ''Link to <current> resume''),
             ''type'' \<mapsto> JNull],
          ctx_strings = [esc (JStr ''Current Resume'')]\<rparr>"
  by (simp add: render_def example_view_def example_context_def push_def Let_def)

lemma example_update:
  "attributes (update esc example_view jqEl) ''title'' = Some (esc (JStr ''Link to <current> resume''))"
  "innerHTML (update esc example_view jqEl) = [esc (JStr ''Current Resume'')]"
  by (simp_all add: update_attributes update_innerHTML example_view_def)

lemma example_update_mutations:
  "mutations (update esc example_view jqEl) =
     mutations jqEl @
       [AttrCall ''download'' (JStr ''Resume - Tyler Keating.pdf''),
        AttrCall ''href'' (JStr ''/users/22/cur-resume.pdf''),
        AttrCall ''hreflang'' (JStr ''en''),
        AttrCall ''title'' (esc (JStr ''Link to <current> resume'')),
        HtmlCall (esc (JStr ''Current Resume''))]"
  by (simp add: update_mutations example_view_def)

lemma example_fields:
  "get_rel example_view = JArr [''author'', ''sidebar'']"
  "get_target example_view = JStr ''_blank''"
  by (simp_all add: example_view_def)

lemma example_escapes:
  "escape_text ''Link to <current> resume'' = ''Link to &lt;current&gt; resume''"
  "escape_text ''Current Resume'' = ''Current Resume''"
  by (simp_all add: escape_text_def)

section \<open>The warm path: update\<close>

text \<open>
  Claim C1, as amended. \<open>update\<close> has no previous snapshot and compares nothing: every
  call makes the same five mutations on the node, one for each of \<open>download\<close>, \<open>href\<close>,
  \<open>hreflang\<close> and \<open>title\<close> and one for the content, whatever the values were before. An
  attribute other than these four keeps its value. When the view differs from the one of
  the previous update only in its tool tip, the mutations write the values the node
  already holds, so that every attribute but \<open>title\<close>, the content and the tag are as
  they were after the previous update.
\<close>

theorem update_writes_every_display_field:
  "mutations (update esc this jqEl) =
     mutations jqEl @
       [AttrCall ''download'' (get_fileName this),
        AttrCall ''href'' (get_href this),
        AttrCall ''hreflang'' (get_hreflang this),
        AttrCall ''title''
          (if truthy (get_displayToolTip this) \<and> truthy (get_escapeHTML this)
           then esc (get_displayToolTip this) else get_displayToolTip this),
        HtmlCall
          (if truthy (get_displayBody this) \<and> truthy (get_escapeHTML this)
           then esc (get_displayBody this) else get_displayBody this)]
   \<and> (name \<notin> {''download'', ''href'', ''hreflang'', ''title''} \<longrightarrow>
        attributes (update esc this jqEl) name = attributes jqEl name)
   \<and> attributes (update esc (this\<lparr>get_displayToolTip := toolTip\<rparr>) (update esc this jqEl)) name =
       (if name = ''title''
        then Some (if truthy toolTip \<and> truthy (get_escapeHTML this) then esc toolTip else toolTip)
        else attributes (update esc this jqEl) name)
   \<and> innerHTML (update esc (this\<lparr>get_displayToolTip := toolTip\<rparr>) (update esc this jqEl)) =
       innerHTML (update esc this jqEl)
   \<and> tagName (update esc (this\<lparr>get_displayToolTip := toolTip\<rparr>) (update esc this jqEl)) =
       tagName (update esc this jqEl)"
  by (simp add: update_mutations update_attributes update_innerHTML update_tagName)

theorem update_writes_every_display_field_witness:
  "attributes (update RenderContext_escapeHTML example_view
       \<lparr>tagName = ''a'', attributes = [''target'' \<mapsto> JStr ''_blank''], innerHTML = [], mutations = []\<rparr>)
     ''target'' = Some (JStr ''_blank'')
   \<and> attributes (update RenderContext_escapeHTML (example_view\<lparr>get_displayToolTip := JStr ''New tip''\<rparr>)
        (update RenderContext_escapeHTML example_view
          \<lparr>tagName = ''a'', attributes = [''target'' \<mapsto> JStr ''_blank''], innerHTML = [], mutations = []\<rparr>))
     ''href'' = Some (JStr ''/users/22/cur-resume.pdf'')"
  using update_writes_every_display_field [of RenderContext_escapeHTML example_view
      "\<lparr>tagName = ''a'', attributes = [''target'' \<mapsto> JStr ''_blank''], innerHTML = [], mutations = []\<rparr>"
      "''target''" "JStr ''New tip''"]
    update_writes_every_display_field [of RenderContext_escapeHTML example_view
      "\<lparr>tagName = ''a'', attributes = [''target'' \<mapsto> JStr ''_blank''], innerHTML = [], mutations = []\<rparr>"
      "''href''" "JStr ''New tip''"]
  by (simp add: update_attributes example_view_def)

text \<open>
  The statement with "if and only if the value differs" fails: after an update with the
  example view, an update that changes the tool tip alone still writes \<open>download\<close>,
  \<open>href\<close>, \<open>hreflang\<close> and the content (the record of mutations is emptied in between, so
  that it shows the calls of the second update).
\<close>

theorem update_rewrites_unchanged_fields:
  "mutations (update RenderContext_escapeHTML (example_view\<lparr>get_displayToolTip := JStr ''New tip''\<rparr>)
      ((update RenderContext_escapeHTML example_view (createLayer example_context))\<lparr>mutations := []\<rparr>))
   = [AttrCall ''download'' (JStr ''Resume - Tyler Keating.pdf''),
      AttrCall ''href'' (JStr ''/users/22/cur-resume.pdf''),
      AttrCall ''hreflang'' (JStr ''en''),
      AttrCall ''title'' (JStr ''New tip''),
      HtmlCall (JStr ''Current Resume'')]"
  by (simp add: update_mutations example_view_def escape_text_def)

text \<open>
  Claim C3, as amended. A cold render into a context with no content yet, followed by an
  update with the same view, leaves the attributes, the content and the tag of the node
  as the render made them: each of the five mutations that the update makes writes the
  value that is already there.
\<close>

theorem update_after_render_keeps_node:
  assumes "render esc this context = Inr context'" and "ctx_strings context = []"
  shows "attributes (update esc this (createLayer context')) = attributes (createLayer context')
         \<and> innerHTML (update esc this (createLayer context')) = innerHTML (createLayer context')
         \<and> tagName (update esc this (createLayer context')) = tagName (createLayer context')
         \<and> length (mutations (update esc this (createLayer context'))) = 5"
proof -
  have "attributes (update esc this (createLayer context')) = attributes (createLayer context')"
    using assms(1)
    by (elim render_Inr) (auto simp: update_attributes createLayer_def)
  moreover have "innerHTML (update esc this (createLayer context')) = innerHTML (createLayer context')"
    using assms
    by (elim render_Inr) (simp add: update_innerHTML createLayer_def)
  ultimately show ?thesis
    by (simp add: update_tagName update_mutations createLayer_def)
qed

theorem update_after_render_keeps_node_witness:
  "attributes (update RenderContext_escapeHTML example_view
       (createLayer (projr (render RenderContext_escapeHTML example_view example_context))))
     = attributes (createLayer (projr (render RenderContext_escapeHTML example_view example_context)))
   \<and> innerHTML (update RenderContext_escapeHTML example_view
       (createLayer (projr (render RenderContext_escapeHTML example_view example_context))))
     = [JStr ''Current Resume'']"
proof -
  have ok: "render RenderContext_escapeHTML example_view example_context
      = Inr (projr (render RenderContext_escapeHTML example_view example_context))"
    by (simp add: example_render)
  have fresh: "ctx_strings example_context = []"
    by (simp add: example_context_def)
  show ?thesis
    using update_after_render_keeps_node [OF ok fresh]
    by (simp add: example_update example_escapes)
qed

text \<open>
  The mutations are made all the same: five of them for the example view, not zero.
\<close>

theorem update_after_render_mutates:
  "\<not> isl (render RenderContext_escapeHTML example_view example_context)
   \<and> mutations (update RenderContext_escapeHTML example_view
        (createLayer (projr (render RenderContext_escapeHTML example_view example_context))))
   = [AttrCall ''download'' (JStr ''Resume - Tyler Keating.pdf''),
      AttrCall ''href'' (JStr ''/users/22/cur-resume.pdf''),
      AttrCall ''hreflang'' (JStr ''en''),
      AttrCall ''title'' (JStr ''Link to &lt;current&gt; resume''),
      HtmlCall (JStr ''Current Resume'')]"
  by (simp add: example_render example_update_mutations createLayer_def example_escapes)

text \<open>
  Claim C7. \<open>update\<close> never mutates the fields that are set once: its result does not
  depend on \<open>ping\<close>, \<open>rel\<close>, \<open>target\<close> and \<open>type\<close> of the view, its mutations are those of
  \<open>download\<close>, \<open>href\<close>, \<open>hreflang\<close>, \<open>title\<close> and the content, and it leaves the tag, the
  class list (the \<open>class\<close> attribute) and the attributes \<open>ping\<close>, \<open>rel\<close>, \<open>target\<close> and
  \<open>type\<close> of the node as they are. The cold path is where they are read: \<open>render\<close> emits
  the joined \<open>ping\<close> and \<open>rel\<close>, \<open>target\<close> and \<open>type\<close>.
\<close>

theorem update_never_patches_set_once_fields:
  "update esc (this\<lparr>get_ping := ping, get_rel := rel, get_target := target, get_type := type\<rparr>) jqEl
     = update esc this jqEl
   \<and> mutations (update esc this jqEl) =
       mutations jqEl @
         [AttrCall ''download'' (get_fileName this),
          AttrCall ''href'' (get_href this),
          AttrCall ''hreflang'' (get_hreflang this),
          AttrCall ''title''
            (if truthy (get_displayToolTip this) \<and> truthy (get_escapeHTML this)
             then esc (get_displayToolTip this) else get_displayToolTip this),
          HtmlCall
            (if truthy (get_displayBody this) \<and> truthy (get_escapeHTML this)
             then esc (get_displayBody this) else get_displayBody this)]
   \<and> tagName (update esc this jqEl) = tagName jqEl
   \<and> attributes (update esc this jqEl) ''class'' = attributes jqEl ''class''
   \<and> attributes (update esc this jqEl) ''ping'' = attributes jqEl ''ping''
   \<and> attributes (update esc this jqEl) ''rel'' = attributes jqEl ''rel''
   \<and> attributes (update esc this jqEl) ''target'' = attributes jqEl ''target''
   \<and> attributes (update esc this jqEl) ''type'' = attributes jqEl ''type''
   \<and> (render esc this context = Inr context' \<longrightarrow>
        map_option Inr (ctx_attrs context' ''ping'') = Some (join_or_null (get_ping this))
        \<and> map_option Inr (ctx_attrs context' ''rel'') = Some (join_or_null (get_rel this))
        \<and> ctx_attrs context' ''target'' = Some (get_target this)
        \<and> ctx_attrs context' ''type'' = Some (get_type this))"
proof -
  have "update esc (this\<lparr>get_ping := ping, get_rel := rel, get_target := target, get_type := type\<rparr>) jqEl
          = update esc this jqEl"
    by (simp add: update_def)
  moreover have "map_option Inr (ctx_attrs context' ''ping'') = Some (join_or_null (get_ping this))
      \<and> map_option Inr (ctx_attrs context' ''rel'') = Some (join_or_null (get_rel this))
      \<and> ctx_attrs context' ''target'' = Some (get_target this)
      \<and> ctx_attrs context' ''type'' = Some (get_type this)"
    if "render esc this context = Inr context'"
    using that by (auto elim!: render_Inr)
  ultimately show ?thesis
    by (simp add: update_mutations update_attributes update_innerHTML update_tagName)
qed

theorem update_never_patches_set_once_fields_witness:
  "update RenderContext_escapeHTML
       (example_view\<lparr>get_ping := JArr [''http://tracker.my-app.com/''], get_rel := JNull,
                     get_target := JStr ''_self'', get_type := JStr ''application/pdf''\<rparr>)
       (createLayer (projr (render RenderContext_escapeHTML example_view example_context)))
     = update RenderContext_escapeHTML example_view
         (createLayer (projr (render RenderContext_escapeHTML example_view example_context)))
   \<and> attributes (update RenderContext_escapeHTML example_view
         (createLayer (projr (render RenderContext_escapeHTML example_view example_context)))) ''target''
     = Some (JStr ''_blank'')
   \<and> ctx_attrs (projr (render RenderContext_escapeHTML example_view example_context)) ''rel''
     = Some (JStr ''author sidebar'')"
proof -
  have ok: "render RenderContext_escapeHTML example_view example_context
      = Inr (projr (render RenderContext_escapeHTML example_view example_context))"
    by (simp add: example_render)
  show ?thesis
    using ok update_never_patches_set_once_fields [of RenderContext_escapeHTML
        "JStr ''application/pdf''" "JStr ''_self''" JNull "JArr [''http://tracker.my-app.com/'']"
        example_view
        "createLayer (projr (render RenderContext_escapeHTML example_view example_context))"
        example_context "projr (render RenderContext_escapeHTML example_view example_context)"]
    by (simp add: example_render createLayer_def example_fields)
qed

section \<open>Escaping\<close>

text \<open>
  Claim C4. For every content string, the cold render with the escape flag \<open>true\<close> emits
  the HTML-entity-escaped form of the content, and with the flag \<open>false\<close> it emits the
  content unchanged; the escaped form of \<open><b>hi</b>\<close> is \<open>&lt;b&gt;hi&lt;/b&gt;\<close>.
\<close>

theorem render_escapes_content:
  assumes "render RenderContext_escapeHTML (this\<lparr>get_displayBody := JStr s, get_escapeHTML := JBool flag\<rparr>) context
             = Inr context'"
  shows "ctx_strings context' = ctx_strings context @ [JStr (if flag then escape_text s else s)]
         \<and> escape_text ''<b>hi</b>'' = ''&lt;b&gt;hi&lt;/b&gt;''"
proof -
  have "escape_text [] = []"
    by (simp add: escape_text_def)
  moreover have "escape_text ''<b>hi</b>'' = ''&lt;b&gt;hi&lt;/b&gt;''"
    by (simp add: escape_text_def)
  ultimately show ?thesis
    using assms by (auto elim!: render_Inr)
qed

theorem render_escapes_content_witness:
  "ctx_strings (projr (render RenderContext_escapeHTML
       (example_view\<lparr>get_displayBody := JStr ''<b>hi</b>'', get_escapeHTML := JBool True\<rparr>)
       example_context)) = [JStr ''&lt;b&gt;hi&lt;/b&gt;'']
   \<and> ctx_strings (projr (render RenderContext_escapeHTML
       (example_view\<lparr>get_displayBody := JStr ''<b>hi</b>'', get_escapeHTML := JBool False\<rparr>)
       example_context)) = [JStr ''<b>hi</b>'']"
proof -
  have ok: "render RenderContext_escapeHTML (example_view\<lparr>get_displayBody := JStr ''<b>hi</b>'', get_escapeHTML := JBool flag\<rparr>) example_context
      = Inr (projr (render RenderContext_escapeHTML (example_view\<lparr>get_displayBody := JStr ''<b>hi</b>'', get_escapeHTML := JBool flag\<rparr>) example_context))"
    for flag
    by (simp add: render_def example_view_def Let_def)
  show ?thesis
    using render_escapes_content [OF ok [of True]] render_escapes_content [OF ok [of False]]
    by (simp add: example_context_def)
qed

text \<open>
  Claim C5. On the same view (the same body, tool tip and escape flag) the update writes
  the same \<open>title\<close> and the same content as the cold render emits, for every escaping
  function of the host.
\<close>

theorem update_escapes_like_render:
  assumes "render esc this context = Inr context'"
  shows "ctx_attrs context' ''title'' = attributes (update esc this jqEl) ''title''
         \<and> ctx_strings context' = ctx_strings context @ innerHTML (update esc this jqEl)"
  using assms by (auto elim!: render_Inr simp: update_attributes update_innerHTML)

theorem update_escapes_like_render_witness:
  "ctx_attrs (projr (render RenderContext_escapeHTML example_view example_context)) ''title''
     = Some (JStr ''Link to &lt;current&gt; resume'')
   \<and> attributes (update RenderContext_escapeHTML example_view (createLayer example_context)) ''title''
     = Some (JStr ''Link to &lt;current&gt; resume'')
   \<and> ctx_strings (projr (render RenderContext_escapeHTML example_view example_context))
     = innerHTML (update RenderContext_escapeHTML example_view (createLayer example_context))"
proof -
  have ok: "render RenderContext_escapeHTML example_view example_context
      = Inr (projr (render RenderContext_escapeHTML example_view example_context))"
    by (simp add: example_render)
  show ?thesis
    using update_escapes_like_render [OF ok, of "createLayer example_context"]
    by (simp add: example_render example_update example_escapes)
qed

text \<open>
  Claim C10. In the cold render and in the update alike, the body and the tool tip pass
  through the escaping function only when the value is truthy and the \<open>escapeHTML\<close> flag
  is truthy. A falsy value reaches the attribute or the content as it is, also when the
  flag is set; so does every value when the flag is falsy.
\<close>

theorem escaping_requires_truthy_value:
  "attributes (update esc this jqEl) ''title'' =
     Some (if truthy (get_displayToolTip this) \<and> truthy (get_escapeHTML this)
           then esc (get_displayToolTip this) else get_displayToolTip this)
   \<and> innerHTML (update esc this jqEl) =
       [if truthy (get_displayBody this) \<and> truthy (get_escapeHTML this)
        then esc (get_displayBody this) else get_displayBody this]
   \<and> (\<not> truthy (get_displayToolTip this) \<longrightarrow>
        attributes (update esc this jqEl) ''title'' = Some (get_displayToolTip this))
   \<and> (\<not> truthy (get_displayBody this) \<longrightarrow>
        innerHTML (update esc this jqEl) = [get_displayBody this])
   \<and> (render esc this context = Inr context' \<longrightarrow>
        ctx_attrs context' ''title'' =
          Some (if truthy (get_displayToolTip this) \<and> truthy (get_escapeHTML this)
                then esc (get_displayToolTip this) else get_displayToolTip this)
        \<and> ctx_strings context' = ctx_strings context @
            [if truthy (get_displayBody this) \<and> truthy (get_escapeHTML this)
             then esc (get_displayBody this) else get_displayBody this]
        \<and> (\<not> truthy (get_displayToolTip this) \<longrightarrow>
             ctx_attrs context' ''title'' = Some (get_displayToolTip this))
        \<and> (\<not> truthy (get_displayBody this) \<longrightarrow>
             ctx_strings context' = ctx_strings context @ [get_displayBody this]))"
proof -
  have "ctx_attrs context' ''title'' =
          Some (if truthy (get_displayToolTip this) \<and> truthy (get_escapeHTML this)
                then esc (get_displayToolTip this) else get_displayToolTip this)
        \<and> ctx_strings context' = ctx_strings context @
            [if truthy (get_displayBody this) \<and> truthy (get_escapeHTML this)
             then esc (get_displayBody this) else get_displayBody this]"
    if "render esc this context = Inr context'"
    using that by (auto elim!: render_Inr)
  then show ?thesis
    by (simp add: update_attributes update_innerHTML)
qed

theorem escaping_requires_truthy_value_witness:
  "truthy (get_escapeHTML (example_view\<lparr>get_displayBody := JStr [], get_displayToolTip := JNull\<rparr>))
   \<and> ctx_attrs (projr (render (\<lambda>v. JStr ''escaped'')
        (example_view\<lparr>get_displayBody := JStr [], get_displayToolTip := JNull\<rparr>) example_context)) ''title''
      = Some JNull
   \<and> ctx_strings (projr (render (\<lambda>v. JStr ''escaped'')
        (example_view\<lparr>get_displayBody := JStr [], get_displayToolTip := JNull\<rparr>) example_context))
      = [JStr []]
   \<and> attributes (update (\<lambda>v. JStr ''escaped'')
        (example_view\<lparr>get_displayBody := JStr [], get_displayToolTip := JNull\<rparr>) (createLayer example_context)) ''title''
      = Some JNull
   \<and> innerHTML (update (\<lambda>v. JStr ''escaped'')
        (example_view\<lparr>get_displayBody := JStr [], get_displayToolTip := JNull\<rparr>) (createLayer example_context))
      = [JStr []]"
proof -
  let ?v = "example_view\<lparr>get_displayBody := JStr [], get_displayToolTip := JNull\<rparr>"
  have ok: "render (\<lambda>v. JStr ''escaped'') ?v example_context
      = Inr (projr (render (\<lambda>v. JStr ''escaped'') ?v example_context))"
    by (simp add: render_def example_view_def Let_def)
  show ?thesis
    using ok escaping_requires_truthy_value [of "\<lambda>v. JStr ''escaped''" ?v
        "createLayer example_context" example_context
        "projr (render (\<lambda>v. JStr ''escaped'') ?v example_context)"]
    by (simp add: example_view_def example_context_def)
qed

section \<open>The computed display values\<close>

text \<open>
  Claim C8, as amended. For every value of \<open>body\<close>: when it is falsy the display body is
  the empty string; when it is truthy and \<open>localize\<close> is truthy it is the localized form
  of \<open>body\<close>; otherwise it is \<open>body\<close> itself. The display body is a string whenever
  \<open>body\<close> is a string or falsy (\<open>null\<close>, \<open>undefined\<close> and the empty string included) and
  the localization of a string is a string.
\<close>

theorem displayBody_cases:
  "(\<not> truthy body \<longrightarrow> displayBody loc body localize = JStr [])
   \<and> (truthy body \<and> truthy localize \<longrightarrow> displayBody loc body localize = loc body)
   \<and> (truthy body \<and> \<not> truthy localize \<longrightarrow> displayBody loc body localize = body)
   \<and> ((is_string body \<or> \<not> truthy body) \<and> (\<forall>s. is_string (loc (JStr s)))
        \<longrightarrow> is_string (displayBody loc body localize))"
  by (cases body) (auto simp: displayBody_def Let_def)

theorem displayBody_cases_witness:
  "displayBody (\<lambda>v. JStr ''Lebenslauf'') JNull (JBool True) = JStr []
   \<and> displayBody (\<lambda>v. JStr ''Lebenslauf'') (JStr []) (JBool True) = JStr []
   \<and> displayBody (\<lambda>v. JStr ''Lebenslauf'') (JStr ''Resume'') (JBool True) = JStr ''Lebenslauf''
   \<and> displayBody (\<lambda>v. JStr ''Lebenslauf'') (JStr ''Resume'') (JBool False) = JStr ''Resume''
   \<and> is_string (displayBody (\<lambda>v. JStr ''Lebenslauf'') (JStr ''Resume'') (JBool True))"
  using displayBody_cases [of JNull "\<lambda>v. JStr ''Lebenslauf''" "JBool True"]
    displayBody_cases [of "JStr []" "\<lambda>v. JStr ''Lebenslauf''" "JBool True"]
    displayBody_cases [of "JStr ''Resume''" "\<lambda>v. JStr ''Lebenslauf''" "JBool True"]
    displayBody_cases [of "JStr ''Resume''" "\<lambda>v. JStr ''Lebenslauf''" "JBool False"]
  by simp

text \<open>
  It is not a string for every value of \<open>body\<close>: a truthy body that is not a string,
  read without localization, comes back as it is, as the number 42 does.
\<close>

theorem displayBody_not_always_string:
  "\<not> is_string (displayBody (\<lambda>v. v) (JNum 42) (JBool False))"
  by (simp add: displayBody_def)

text \<open>
  Claim C9. For every value of \<open>language\<close>, \<open>hreflang\<close> is never \<open>null\<close> (nor
  \<open>undefined\<close>): it is \<open>language\<close> when that is truthy, and the language of the current
  locale otherwise.
\<close>

theorem hreflang_never_null:
  "hreflang currentLocale_language language \<noteq> JNull
   \<and> hreflang currentLocale_language language \<noteq> JUndefined
   \<and> (truthy language \<longrightarrow> hreflang currentLocale_language language = language)
   \<and> (\<not> truthy language \<longrightarrow> hreflang currentLocale_language language = JStr currentLocale_language)"
  by (cases language) (auto simp: hreflang_def)

theorem hreflang_never_null_witness:
  "hreflang ''en'' (JStr ''fr'') = JStr ''fr''
   \<and> hreflang ''en'' JNull = JStr ''en''
   \<and> hreflang ''en'' (JStr []) = JStr ''en''
   \<and> hreflang ''en'' JNull \<noteq> JNull"
  using hreflang_never_null [of "''en''" "JStr ''fr''"] hreflang_never_null [of "''en''" JNull]
    hreflang_never_null [of "''en''" "JStr []"]
  by simp

section \<open>The cache: invalidation and memoization\<close>

lemma set_update_subset: "set (AList.update k v al) \<subseteq> insert (k, v) (set al)"
  by (induction al) auto

lemma propagate_mono: "set names \<subseteq> set (propagate k es names)"
proof (induction k arbitrary: names)
  case 0
  then show ?case by simp
next
  case (Suc k)
  have "set names \<subseteq> set (names @ dependents es names)" by simp
  also have "\<dots> \<subseteq> set (propagate k es (names @ dependents es names))" by (rule Suc.IH)
  finally show ?case by simp
qed

lemma propagate_dependents:
  assumes "0 < k"
  shows "set (dependents es names) \<subseteq> set (propagate k es names)"
proof -
  from assms obtain j where k: "k = Suc j" by (cases k) auto
  have "set (dependents es names) \<subseteq> set (names @ dependents es names)" by simp
  also have "\<dots> \<subseteq> set (propagate j es (names @ dependents es names))" by (rule propagate_mono)
  finally show ?thesis by (simp add: k)
qed

lemma direct_dependent_invalidated:
  assumes "(n, e) \<in> set es" and "p \<in> set (dependencies e)"
  shows "n \<in> set (invalidated es p)"
proof -
  have "list_ex (\<lambda>d. d \<in> set [p]) (dependencies e)"
    using assms(2) by (simp add: list_ex_iff)
  with assms(1) have "n \<in> set (dependents es [p])"
    by (force simp: dependents_def)
  moreover have "0 < length es"
    using assms(1) by (cases es) auto
  ultimately show ?thesis
    using propagate_dependents [of "length es" es "[p]"] by (auto simp: invalidated_def)
qed

lemma restrict_map_upd_other: "p \<notin> A \<Longrightarrow> (m(p \<mapsto> v)) |` A = m |` A"
  by (auto simp: restrict_map_def fun_eq_iff)

lemma coherent_cache_set:
  assumes "coherent c"
  shows "coherent (cache_set c p v)"
  unfolding coherent_def
proof (clarify)
  fix n e'
  assume mem: "(n, e') \<in> set (entries (cache_set c p v))" and v: "valid e'"
  from mem obtain n0 e where e: "(n0, e) \<in> set (entries c)"
    and inv: "(n, e') = invalidate (invalidated (entries c) p) (n0, e)"
    by (auto simp: cache_set_def)
  from inv v have notin: "n0 \<notin> set (invalidated (entries c) p)" and same: "e' = e"
    by (auto simp: invalidate_def split: if_splits)
  from notin e have "p \<notin> set (dependencies e)"
    using direct_dependent_invalidated by blast
  then have "current_values (cache_set c p v) e = current_values c e"
    by (simp add: current_values_def cache_set_def restrict_map_upd_other)
  moreover from assms e v same have "cachedValue e = Some (compute e (current_values c e))"
    by (auto simp: coherent_def)
  ultimately show "cachedValue e' = Some (compute e' (current_values (cache_set c p v) e'))"
    using same by simp
qed

lemma coherent_cache_sets: "coherent c \<Longrightarrow> coherent (cache_sets c ws)"
  by (induction c ws rule: cache_sets.induct) (simp_all add: coherent_cache_set)

lemma coherent_cache_get:
  assumes "coherent c"
  shows "coherent (snd (cache_get c name))"
proof (cases "map_of (entries c) name")
  case None
  with assms show ?thesis by (simp add: cache_get_def)
next
  case (Some e)
  show ?thesis
  proof (cases "valid e \<and> cachedValue e \<noteq> None")
    case True
    with Some assms show ?thesis by (simp add: cache_get_def)
  next
    case False
    let ?e' = "e\<lparr>cachedValue := Some (compute e (current_values c e)), valid := True\<rparr>"
    let ?c' = "c\<lparr>entries := AList.update name ?e' (entries c), computeCalls := computeCalls c + 1\<rparr>"
    have c': "snd (cache_get c name) = ?c'"
      using Some False by (auto simp: cache_get_def Let_def)
    have cur: "current_values (c\<lparr>entries := es, computeCalls := k\<rparr>) x = current_values c x" for x es k
      by (simp add: current_values_def)
    have "coherent ?c'"
      unfolding coherent_def
    proof (clarify)
      fix n x
      assume mem: "(n, x) \<in> set (entries ?c')" and v: "valid x"
      then have "(n, x) = (name, ?e') \<or> (n, x) \<in> set (entries c)"
        using set_update_subset [of name ?e' "entries c"] by auto
      then show "cachedValue x = Some (compute x (current_values ?c' x))"
      proof
        assume "(n, x) = (name, ?e')"
        then show ?thesis by (auto simp: current_values_def)
      next
        assume "(n, x) \<in> set (entries c)"
        with assms v show ?thesis by (auto simp: coherent_def cur)
      qed
    qed
    with c' show ?thesis by simp
  qed
qed

lemma cache_get_value:
  assumes "coherent c" and "map_of (entries c) name = Some e"
  shows "fst (cache_get c name) = Some (compute e (current_values c e))"
proof (cases "valid e \<and> cachedValue e \<noteq> None")
  case True
  from assms(2) have "(name, e) \<in> set (entries c)" by (rule map_of_SomeD)
  with assms(1) True have "cachedValue e = Some (compute e (current_values c e))"
    by (auto simp: coherent_def)
  with True assms(2) show ?thesis by (simp add: cache_get_def)
next
  case False
  with assms(2) show ?thesis by (auto simp: cache_get_def Let_def)
qed

lemma map_of_invalidate:
  "map_of (map (invalidate names) es) name =
     map_option (\<lambda>e. if name \<in> set names then e\<lparr>valid := False\<rparr> else e) (map_of es name)"
  by (induction es) (auto simp: invalidate_def)

lemma cache_set_keeps_function:
  assumes "map_of (entries c) name = Some e"
  shows "\<exists>e'. map_of (entries (cache_set c p v)) name = Some e'
           \<and> compute e' = compute e \<and> dependencies e' = dependencies e"
  using assms by (simp add: cache_set_def map_of_invalidate)

lemma cache_sets_keeps_function:
  assumes "map_of (entries c) name = Some e"
  shows "\<exists>e'. map_of (entries (cache_sets c ws)) name = Some e'
           \<and> compute e' = compute e \<and> dependencies e' = dependencies e"
  using assms
proof (induction c ws arbitrary: e rule: cache_sets.induct)
  case (1 c)
  then show ?case by simp
next
  case (2 c p v ws)
  from cache_set_keeps_function [OF "2.prems", of p v] obtain e1 where
    e1: "map_of (entries (cache_set c p v)) name = Some e1"
      "compute e1 = compute e" "dependencies e1 = dependencies e"
    by blast
  from "2.IH" [OF e1(1)] e1(2,3) show ?case by simp
qed

lemma properties_cache_sets: "properties (cache_sets c ws) = properties c ++ map_of (rev ws)"
proof (induction c ws rule: cache_sets.induct)
  case (1 c)
  then show ?case by simp
next
  case (2 c p v ws)
  have "properties (cache_sets (cache_set c p v) ws) = properties (cache_set c p v) ++ map_of (rev ws)"
    by (rule "2.IH")
  also have "properties (cache_set c p v) = properties c ++ [p \<mapsto> v]"
    by (simp add: cache_set_def)
  also have "properties c ++ [p \<mapsto> v] ++ map_of (rev ws) = properties c ++ map_of (rev ((p, v) # ws))"
    by (simp only: rev.simps map_of_append map_add_assoc map_of.simps fst_conv snd_conv)
  finally show ?case by simp
qed

text \<open>
  Claim C2. From a cache that satisfies the invariant, after any sequence of writes of
  raw properties, a read of a computed entry returns the entry's \<open>compute\<close> function
  applied to the current values of its dependencies, where the current values are the
  latest ones written; and the invariant (the cached value of a valid entry is
  \<open>compute\<close> of the current values of its dependencies) holds after the writes and after
  the read, so that no read sees a stale value.
\<close>

theorem get_is_never_stale:
  assumes "coherent c" and "map_of (entries c) name = Some e"
  shows "fst (cache_get (cache_sets c ws) name)
           = Some (compute e (properties (cache_sets c ws) |` set (dependencies e)))
         \<and> properties (cache_sets c ws) = properties c ++ map_of (rev ws)
         \<and> coherent (cache_sets c ws)
         \<and> coherent (snd (cache_get (cache_sets c ws) name))"
proof -
  from cache_sets_keeps_function [OF assms(2), of ws] obtain e' where
    e': "map_of (entries (cache_sets c ws)) name = Some e'"
      "compute e' = compute e" "dependencies e' = dependencies e"
    by blast
  have coh: "coherent (cache_sets c ws)"
    using assms(1) by (rule coherent_cache_sets)
  from cache_get_value [OF coh e'(1)] e'(2,3)
  have "fst (cache_get (cache_sets c ws) name)
          = Some (compute e (properties (cache_sets c ws) |` set (dependencies e)))"
    by (simp add: current_values_def)
  with coh show ?thesis
    by (simp add: properties_cache_sets [symmetric] coherent_cache_get)
qed


lemma link_view_cache_coherent: "coherent (link_view_cache loc currentLocale_language)"
  by (simp add: coherent_def link_view_cache_def displayBody_entry_def hreflang_entry_def)

theorem get_is_never_stale_witness:
  "fst (cache_get (link_view_cache (\<lambda>v. JStr ''Lebenslauf'') ''en'') ''displayBody'') = Some (JStr [])
   \<and> fst (cache_get
       (cache_sets (snd (cache_get (link_view_cache (\<lambda>v. JStr ''Lebenslauf'') ''en'') ''displayBody''))
          [(''body'', JStr ''Old''), (''body'', JStr ''Resume'')])
       ''displayBody'') = Some (JStr ''Resume'')
   \<and> fst (cache_get
       (cache_sets (snd (cache_get (link_view_cache (\<lambda>v. JStr ''Lebenslauf'') ''en'') ''displayBody''))
          [(''body'', JStr ''Resume''), (''localize'', JBool True)])
       ''displayBody'') = Some (JStr ''Lebenslauf'')"
proof -
  let ?c = "link_view_cache (\<lambda>v. JStr ''Lebenslauf'') ''en''"
  let ?e = "displayBody_entry (\<lambda>v. JStr ''Lebenslauf'')"
  let ?c1 = "snd (cache_get ?c ''displayBody'')"
  let ?e1 = "?e\<lparr>cachedValue := Some (JStr []), valid := True\<rparr>"
  have e: "map_of (entries ?c) ''displayBody'' = Some ?e"
    by (simp add: link_view_cache_def)
  have coh1: "coherent ?c1"
    using link_view_cache_coherent by (rule coherent_cache_get)
  have e1: "map_of (entries ?c1) ''displayBody'' = Some ?e1"
    by (simp add: cache_get_def link_view_cache_def displayBody_entry_def current_values_def
        displayBody_def raw_def Let_def)
  have p1: "properties ?c1 = properties ?c"
    by (simp add: cache_get_def link_view_cache_def displayBody_entry_def Let_def)
  have v0: "compute ?e (properties ?c |` set (dependencies ?e)) = JStr []"
    by (simp add: link_view_cache_def displayBody_entry_def displayBody_def raw_def restrict_map_def)
  have v1: "compute ?e1 (properties (cache_sets ?c1 [(''body'', JStr ''Old''), (''body'', JStr ''Resume'')])
              |` set (dependencies ?e1)) = JStr ''Resume''"
    unfolding properties_cache_sets p1
    by (simp add: link_view_cache_def displayBody_entry_def displayBody_def raw_def restrict_map_def)
  have v2: "compute ?e1 (properties (cache_sets ?c1 [(''body'', JStr ''Resume''), (''localize'', JBool True)])
              |` set (dependencies ?e1)) = JStr ''Lebenslauf''"
    unfolding properties_cache_sets p1
    by (simp add: link_view_cache_def displayBody_entry_def displayBody_def raw_def restrict_map_def)
  from get_is_never_stale [OF link_view_cache_coherent e, of "[]", THEN conjunct1]
  have "fst (cache_get ?c ''displayBody'') = Some (JStr [])"
    by (simp only: v0 cache_sets.simps)
  moreover
  from get_is_never_stale [OF coh1 e1, of "[(''body'', JStr ''Old''), (''body'', JStr ''Resume'')]",
      THEN conjunct1]
  have "fst (cache_get (cache_sets ?c1 [(''body'', JStr ''Old''), (''body'', JStr ''Resume'')]) ''displayBody'')
          = Some (JStr ''Resume'')"
    by (simp only: v1)
  moreover
  from get_is_never_stale [OF coh1 e1, of "[(''body'', JStr ''Resume''), (''localize'', JBool True)]",
      THEN conjunct1]
  have "fst (cache_get (cache_sets ?c1 [(''body'', JStr ''Resume''), (''localize'', JBool True)]) ''displayBody'')
          = Some (JStr ''Lebenslauf'')"
    by (simp only: v2)
  ultimately show ?thesis
    by (intro conjI)
qed

lemma dependents_edges:
  "dependents es names =
     map fst (filter (\<lambda>nd. list_ex (\<lambda>d. d \<in> set names) (snd nd)) (dependency_edges es))"
  by (induction es) (auto simp: dependents_def dependency_edges_def)

lemma propagate_edges:
  "dependency_edges es = dependency_edges es' \<Longrightarrow> propagate k es names = propagate k es' names"
  by (induction k arbitrary: names) (simp_all add: dependents_edges)

lemma invalidated_edges:
  assumes "dependency_edges es = dependency_edges es'"
  shows "invalidated es p = invalidated es' p"
proof -
  from assms have "length (dependency_edges es) = length (dependency_edges es')" by simp
  then have "length es = length es'" by (simp add: dependency_edges_def)
  with assms show ?thesis by (simp add: invalidated_def propagate_edges [of es es'])
qed

lemma edges_invalidate: "dependency_edges (map (invalidate names) es) = dependency_edges es"
  by (induction es) (auto simp: dependency_edges_def invalidate_def)

lemma edges_cache_set: "dependency_edges (entries (cache_set c p v)) = dependency_edges (entries c)"
  by (simp add: cache_set_def edges_invalidate)

lemma cache_set_untouched:
  assumes "name \<notin> set (invalidated (entries c) p)"
  shows "map_of (entries (cache_set c p v)) name = map_of (entries c) name"
  using assms by (cases "map_of (entries c) name") (simp_all add: cache_set_def map_of_invalidate)

lemma cache_sets_untouched:
  assumes "\<forall>(p, v) \<in> set ws. name \<notin> set (invalidated (entries c) p)"
  shows "map_of (entries (cache_sets c ws)) name = map_of (entries c) name
         \<and> computeCalls (cache_sets c ws) = computeCalls c"
  using assms
proof (induction c ws rule: cache_sets.induct)
  case (1 c)
  then show ?case by simp
next
  case (2 c p v ws)
  have same: "invalidated (entries (cache_set c p v)) q = invalidated (entries c) q" for q
    by (rule invalidated_edges) (rule edges_cache_set)
  from "2.prems" have "\<forall>(q, w) \<in> set ws. name \<notin> set (invalidated (entries (cache_set c p v)) q)"
    by (simp add: same)
  from "2.IH" [OF this] "2.prems" show ?case
    by (simp add: cache_set_untouched) (simp add: cache_set_def)
qed

lemma cache_get_memoized:
  assumes "map_of (entries c) name = Some e" and "valid e" and "cachedValue e = Some v"
  shows "cache_get c name = (Some v, c)"
  using assms by (simp add: cache_get_def)

lemma edges_update:
  assumes "map_of es name = Some e" and "dependencies e' = dependencies e"
  shows "dependency_edges (AList.update name e' es) = dependency_edges es"
  using assms by (induction es) (auto simp: dependency_edges_def)

text \<open>
  What a write invalidates, in terms of the declared dependencies: an invalidated name is
  the written property or depends on it; where no entry depends on another entry, the
  invalidated names are the written property and the entries that declare it.
\<close>

lemma depends_on_trans:
  assumes "depends_on es n q" and "depends_on es q p"
  shows "depends_on es n p"
  using assms by (induction rule: depends_on.induct) (auto intro: depends_on.intros)

lemma depends_on_entry: "depends_on es n p \<Longrightarrow> n \<in> fst ` set es"
  by (induction rule: depends_on.induct) force+

lemma dependents_depends_on:
  assumes "n \<in> set (dependents es names)"
  shows "\<exists>q \<in> set names. depends_on es n q"
proof -
  from assms obtain e where e: "(n, e) \<in> set es" "list_ex (\<lambda>d. d \<in> set names) (dependencies e)"
    by (auto simp: dependents_def)
  then obtain d where "d \<in> set (dependencies e)" "d \<in> set names"
    by (auto simp: list_ex_iff)
  with e(1) show ?thesis
    by (auto intro: depends_on.direct)
qed

lemma propagate_depends_on:
  assumes "n \<in> set (propagate k es names)"
  shows "n \<in> set names \<or> (\<exists>q \<in> set names. depends_on es n q)"
  using assms
proof (induction k arbitrary: names)
  case 0
  then show ?case by simp
next
  case (Suc k)
  from Suc.prems have "n \<in> set (propagate k es (names @ dependents es names))" by simp
  from Suc.IH [OF this] consider
      (seed) "n \<in> set names"
    | (step) "n \<in> set (dependents es names)"
    | (far) q where "q \<in> set names" "depends_on es n q"
    | (farther) q where "q \<in> set (dependents es names)" "depends_on es n q"
    by auto
  then show ?case
  proof cases
    case seed
    then show ?thesis by simp
  next
    case step
    then show ?thesis using dependents_depends_on by blast
  next
    case far
    then show ?thesis by blast
  next
    case farther
    from dependents_depends_on [OF farther(1)] obtain r where
      "r \<in> set names" "depends_on es q r" by blast
    with farther(2) show ?thesis using depends_on_trans by blast
  qed
qed

lemma invalidated_depends_on:
  "n \<in> set (invalidated es p) \<Longrightarrow> n = p \<or> depends_on es n p"
  using propagate_depends_on [of n "length es" es "[p]"] by (auto simp: invalidated_def)

lemma invalidated_flat:
  assumes flat: "\<forall>(n, e) \<in> set es. set (dependencies e) \<inter> fst ` set es = {}"
  shows "set (invalidated es p) = insert p {n. \<exists>e. (n, e) \<in> set es \<and> p \<in> set (dependencies e)}"
proof (intro equalityI subsetI)
  fix n
  assume "n \<in> set (invalidated es p)"
  then have "n = p \<or> depends_on es n p" by (rule invalidated_depends_on)
  moreover have "\<exists>e. (n, e) \<in> set es \<and> p \<in> set (dependencies e)" if "depends_on es n p"
    using that
  proof (cases rule: depends_on.cases)
    case (direct e)
    then show ?thesis by blast
  next
    case (through e d)
    from through(3) have "d \<in> fst ` set es" by (rule depends_on_entry)
    with through(1,2) flat show ?thesis by blast
  qed
  ultimately show "n \<in> insert p {n. \<exists>e. (n, e) \<in> set es \<and> p \<in> set (dependencies e)}"
    by blast
next
  fix n
  assume "n \<in> insert p {n. \<exists>e. (n, e) \<in> set es \<and> p \<in> set (dependencies e)}"
  then show "n \<in> set (invalidated es p)"
    using direct_dependent_invalidated [of n _ es p] propagate_mono [of "[p]" "length es" es]
    by (auto simp: invalidated_def)
qed


lemma cache_get_first:
  assumes "map_of (entries c) name = Some e"
  shows "fst (cache_get c name) =
           (if valid e \<and> cachedValue e \<noteq> None then cachedValue e
            else Some (compute e (current_values c e)))"
    and "fst (cache_get c name) \<noteq> None"
    and "map_of (entries (snd (cache_get c name))) name =
           Some (if valid e \<and> cachedValue e \<noteq> None then e
                 else e\<lparr>cachedValue := Some (compute e (current_values c e)), valid := True\<rparr>)"
    and "computeCalls (snd (cache_get c name)) =
           computeCalls c + (if valid e \<and> cachedValue e \<noteq> None then 0 else 1)"
    and "properties (snd (cache_get c name)) = properties c"
    and "dependency_edges (entries (snd (cache_get c name))) = dependency_edges (entries c)"
proof -
  show "fst (cache_get c name) =
           (if valid e \<and> cachedValue e \<noteq> None then cachedValue e
            else Some (compute e (current_values c e)))"
    using assms by (auto simp: cache_get_def Let_def)
  then show "fst (cache_get c name) \<noteq> None"
    by (auto split: if_splits)
  show "map_of (entries (snd (cache_get c name))) name =
           Some (if valid e \<and> cachedValue e \<noteq> None then e
                 else e\<lparr>cachedValue := Some (compute e (current_values c e)), valid := True\<rparr>)"
    using assms by (auto simp: cache_get_def Let_def update_conv')
  show "computeCalls (snd (cache_get c name)) =
           computeCalls c + (if valid e \<and> cachedValue e \<noteq> None then 0 else 1)"
    using assms by (auto simp: cache_get_def Let_def)
  show "properties (snd (cache_get c name)) = properties c"
    using assms by (auto simp: cache_get_def Let_def)
  show "dependency_edges (entries (snd (cache_get c name))) = dependency_edges (entries c)"
    using assms by (auto simp: cache_get_def Let_def edges_update)
qed

text \<open>
  Claim C6. A read of a computed entry returns the cached value when the entry is valid
  and \<open>compute\<close> of the current values of its dependencies otherwise; it invokes
  \<open>compute\<close> exactly once in the second case and not at all in the first, leaves the
  raw properties as they are, and leaves the entry valid with the returned value cached.
  After writes to properties that are not the entry and on which the entry does not
  depend (directly or through other entries), the entry is as the first read left it,
  and a second read returns the value of the first, leaves the cache as it is (no side
  effect) and invokes \<open>compute\<close> not at all: the two reads together invoke it at most
  once. With no write in between, these are two consecutive reads.
\<close>

theorem second_get_does_not_compute:
  assumes "map_of (entries c) name = Some e"
    and "\<forall>(p, v) \<in> set ws. p \<noteq> name \<and> \<not> depends_on (entries c) name p"
  shows "fst (cache_get c name) =
           (if valid e \<and> cachedValue e \<noteq> None then cachedValue e
            else Some (compute e (current_values c e)))
         \<and> fst (cache_get c name) \<noteq> None
         \<and> computeCalls (snd (cache_get c name)) =
             computeCalls c + (if valid e \<and> cachedValue e \<noteq> None then 0 else 1)
         \<and> properties (snd (cache_get c name)) = properties c
         \<and> map_of (entries (snd (cache_get c name))) name =
             Some (if valid e \<and> cachedValue e \<noteq> None then e
                   else e\<lparr>cachedValue := Some (compute e (current_values c e)), valid := True\<rparr>)
         \<and> map_of (entries (cache_sets (snd (cache_get c name)) ws)) name =
             map_of (entries (snd (cache_get c name))) name
         \<and> cache_get (cache_sets (snd (cache_get c name)) ws) name =
             (fst (cache_get c name), cache_sets (snd (cache_get c name)) ws)
         \<and> computeCalls (snd (cache_get (cache_sets (snd (cache_get c name)) ws) name)) =
             computeCalls (snd (cache_get c name))
         \<and> computeCalls (snd (cache_get (cache_sets (snd (cache_get c name)) ws) name))
             \<le> computeCalls c + 1"
proof -
  let ?c1 = "snd (cache_get c name)"
  let ?e1 = "if valid e \<and> cachedValue e \<noteq> None then e
             else e\<lparr>cachedValue := Some (compute e (current_values c e)), valid := True\<rparr>"
  note first = cache_get_first [OF assms(1)]
  obtain v where v: "fst (cache_get c name) = Some v"
    using first(2) by blast
  have e1: "map_of (entries ?c1) name = Some ?e1"
    by (rule first(3))
  have valid1: "valid ?e1" and cached1: "cachedValue ?e1 = Some v"
    using first(1) v by (auto split: if_splits)
  have "invalidated (entries ?c1) q = invalidated (entries c) q" for q
    using first(6) by (rule invalidated_edges)
  moreover have "name \<notin> set (invalidated (entries c) p)" if "(p, w) \<in> set ws" for p w
    using that assms(2) invalidated_depends_on [of name "entries c" p] by blast
  ultimately have "\<forall>(p, w) \<in> set ws. name \<notin> set (invalidated (entries ?c1) p)"
    by auto
  from cache_sets_untouched [OF this]
  have kept: "map_of (entries (cache_sets ?c1 ws)) name = map_of (entries ?c1) name"
    and calls: "computeCalls (cache_sets ?c1 ws) = computeCalls ?c1"
    by simp_all
  from kept e1 have "map_of (entries (cache_sets ?c1 ws)) name = Some ?e1"
    by simp
  from cache_get_memoized [OF this valid1 cached1]
  have second: "cache_get (cache_sets ?c1 ws) name = (fst (cache_get c name), cache_sets ?c1 ws)"
    by (simp add: v)
  have bound: "computeCalls ?c1 \<le> computeCalls c + 1"
    by (simp add: first(4))
  show ?thesis
    using first(1,2,4,5) e1 kept second calls bound
    by (simp only: fst_conv snd_conv simp_thms)
qed

lemma link_view_entry:
  assumes "(n, e) \<in> set (entries (link_view_cache loc currentLocale_language))"
  shows "(n = ''displayBody'' \<and> dependencies e = [''body'', ''localize''])
         \<or> (n = ''hreflang'' \<and> dependencies e = [''language'', ''localize''])"
proof -
  from assms have "(n, e) = (''displayBody'', displayBody_entry loc)
      \<or> (n, e) = (''hreflang'', hreflang_entry currentLocale_language)"
    by (simp add: link_view_cache_def)
  then show ?thesis
  proof
    assume "(n, e) = (''displayBody'', displayBody_entry loc)"
    then have "n = ''displayBody''" and "e = displayBody_entry loc" by simp_all
    then show ?thesis by (simp add: displayBody_entry_def)
  next
    assume "(n, e) = (''hreflang'', hreflang_entry currentLocale_language)"
    then have "n = ''hreflang''" and "e = hreflang_entry currentLocale_language" by simp_all
    then show ?thesis by (simp add: hreflang_entry_def)
  qed
qed

lemma link_view_depends_on:
  assumes "depends_on (entries (link_view_cache loc currentLocale_language)) n p"
  shows "(n = ''displayBody'' \<and> p \<in> {''body'', ''localize''})
         \<or> (n = ''hreflang'' \<and> p \<in> {''language'', ''localize''})"
  using assms
proof (induction rule: depends_on.induct)
  case (direct n e p)
  from link_view_entry [OF direct(1)] direct(2) show ?case by auto
next
  case (through n e d p)
  from through.IH have "d = ''displayBody'' \<or> d = ''hreflang''" by blast
  moreover from link_view_entry [OF through(1)] through(2)
  have "d = ''body'' \<or> d = ''localize'' \<or> d = ''language''" by auto
  ultimately have False by auto
  then show ?case ..
qed

theorem second_get_does_not_compute_witness:
  "fst (cache_get (link_view_cache (\<lambda>v. v) ''en'') ''displayBody'') = Some (JStr [])
   \<and> computeCalls (snd (cache_get (link_view_cache (\<lambda>v. v) ''en'') ''displayBody'')) = 1
   \<and> fst (cache_get
        (cache_sets (snd (cache_get (link_view_cache (\<lambda>v. v) ''en'') ''displayBody''))
           [(''language'', JStr ''fr'')])
        ''displayBody'') = Some (JStr [])
   \<and> computeCalls (snd (cache_get
        (cache_sets (snd (cache_get (link_view_cache (\<lambda>v. v) ''en'') ''displayBody''))
           [(''language'', JStr ''fr'')])
        ''displayBody'')) = 1"
proof -
  let ?c = "link_view_cache (\<lambda>v. v) ''en''"
  let ?e = "displayBody_entry (\<lambda>v. v)"
  let ?c1 = "snd (cache_get ?c ''displayBody'')"
  have e: "map_of (entries ?c) ''displayBody'' = Some ?e"
    by (simp add: link_view_cache_def)
  have w: "\<forall>(p, v) \<in> set [(''language'', JStr ''fr'')].
             p \<noteq> ''displayBody'' \<and> \<not> depends_on (entries ?c) ''displayBody'' p"
    using link_view_depends_on [of "\<lambda>v. v" "''en''" "''displayBody''" "''language''"] by auto
  have invalid: "\<not> (valid ?e \<and> cachedValue ?e \<noteq> None)"
    by (simp add: displayBody_entry_def)
  have val: "compute ?e (current_values ?c ?e) = JStr []"
    by (simp add: current_values_def link_view_cache_def displayBody_entry_def displayBody_def
        raw_def restrict_map_def)
  have zero: "computeCalls ?c = 0"
    by (simp add: link_view_cache_def)
  note t = second_get_does_not_compute [OF e w]
  have a: "fst (cache_get ?c ''displayBody'') = Some (JStr [])"
    using t [THEN conjunct1] invalid val by (simp only: if_False)
  have "computeCalls ?c1 = computeCalls ?c + 1"
    using t [THEN conjunct2, THEN conjunct2, THEN conjunct1] invalid by (simp only: if_False)
  then have b: "computeCalls ?c1 = 1"
    by (simp only: zero add_0)
  have c: "cache_get (cache_sets ?c1 [(''language'', JStr ''fr'')]) ''displayBody''
             = (fst (cache_get ?c ''displayBody''), cache_sets ?c1 [(''language'', JStr ''fr'')])"
    by (rule t [THEN conjunct2, THEN conjunct2, THEN conjunct2, THEN conjunct2, THEN conjunct2,
          THEN conjunct2, THEN conjunct1])
  have d: "computeCalls (snd (cache_get (cache_sets ?c1 [(''language'', JStr ''fr'')]) ''displayBody''))
             = computeCalls ?c1"
    by (rule t [THEN conjunct2, THEN conjunct2, THEN conjunct2, THEN conjunct2, THEN conjunct2,
          THEN conjunct2, THEN conjunct2, THEN conjunct1])
  have c': "fst (cache_get (cache_sets ?c1 [(''language'', JStr ''fr'')]) ''displayBody'') = Some (JStr [])"
    by (simp only: c fst_conv a)
  have d': "computeCalls (snd (cache_get (cache_sets ?c1 [(''language'', JStr ''fr'')]) ''displayBody'')) = 1"
    by (simp only: d b)
  show ?thesis
    using a b c' d' by (intro conjI)
qed

end
